theory Spec2Isabelle
  imports Main "HOL-Library.List_Lexorder" "HOL-Library.AList" "HOL-Library.Multiset"
begin

section \<open>Strings\<close>

text \<open>
  A Python \<open>str\<close> is a sequence of Unicode code points and \<open>len\<close> counts code points, so a
  string is modelled as a list of code points. (An Isabelle \<open>char\<close> is a byte: the ellipsis
  U+2026 would be three of them.) \<open>ustr\<close> turns an ASCII literal into such a list.
\<close>

type_synonym ustr = "nat list"

definition ustr :: "string \<Rightarrow> ustr" where
  "ustr s = map of_char s"

definition SPACE :: nat where
  "SPACE = 32"

definition ELLIPSIS :: nat where
  "ELLIPSIS = 8230"

text \<open>The code points for which Python's \<open>str.isspace\<close> holds; \<open>rstrip()\<close> removes these.\<close>

definition is_space :: "nat \<Rightarrow> bool" where
  "is_space c \<longleftrightarrow>
     (9 \<le> c \<and> c \<le> 13) \<or> (28 \<le> c \<and> c \<le> 32) \<or> c = 133 \<or> c = 160 \<or> c = 5760 \<or>
     (8192 \<le> c \<and> c \<le> 8202) \<or> c = 8232 \<or> c = 8233 \<or> c = 8239 \<or> c = 8287 \<or>
     c = 12288"

definition rstrip :: "ustr \<Rightarrow> ustr" where
  "rstrip s = rev (dropWhile is_space (rev s))"

text \<open>\<open>s.rsplit(" ", 1)[0]\<close> for an \<open>s\<close> that holds a space: what stands before the last space.\<close>

definition rsplit_space_head :: "ustr \<Rightarrow> ustr" where
  "rsplit_space_head s = rev (tl (dropWhile (\<lambda>c. c \<noteq> SPACE) (rev s)))"

section \<open>Post-processor: \<open>_enforce_max_chars\<close> (backend/app/routers/rag.py)\<close>

text \<open>
  \<^verbatim>\<open>
  def _enforce_max_chars(text: str, max_chars: int) -> str:
      if max_chars <= 0 or len(text) <= max_chars:
          return text
      cut = text[: max_chars - 1]
      if " " in cut:
          cut = cut.rsplit(" ", 1)[0]
      return cut.rstrip() + "..."      (the one character U+2026)
  \<close>
\<close>

definition enforce_max_chars :: "ustr \<Rightarrow> int \<Rightarrow> ustr" where
  "enforce_max_chars text max_chars =
     (if max_chars \<le> 0 \<or> int (length text) \<le> max_chars then text
      else let cut = take (nat (max_chars - 1)) text;
               cut = (if SPACE \<in> set cut then rsplit_space_head cut else cut)
           in rstrip cut @ [ELLIPSIS])"

section \<open>Retrieval diversifier: the \<open>tweet_bot\<close> branch of \<open>query_rag\<close> (backend/app/routers/rag.py)\<close>

text \<open>
  \<^verbatim>\<open>
  seen = set()
  diversified = []
  for c in sorted(chunks, key=lambda x: x.distance):
      meta = c.metadata if isinstance(c.metadata, dict) else {}
      key = meta.get("file") or meta.get("doc_id") or (c.text or "")[:40]
      if key in seen:
          continue
      diversified.append(c)
      seen.add(key)
      if len(diversified) >= payload.top_k:
          break
  chunks = diversified or chunks[: payload.top_k]
  \<close>
  A chunk has a text (possibly \<open>None\<close>), a distance and a metadata value, which is a dict or
  not (\<open>None\<close> here). The distance is a Python float; the model takes any linear order, which
  leaves out NaN. Metadata values are strings. \<open>sorted\<close> is stable, as \<open>sort_key\<close> is.
\<close>

record 'd chunk =
  chunk_text :: "ustr option"
  distance :: 'd
  metadata :: "(string \<rightharpoonup> ustr) option"

text \<open>\<open>meta.get(k) or ...\<close>: the value counts when the key is there and the value is not empty.\<close>

definition truthy_get :: "(string \<rightharpoonup> ustr) \<Rightarrow> string \<Rightarrow> ustr option" where
  "truthy_get meta k = (case meta k of None \<Rightarrow> None | Some v \<Rightarrow> if v = [] then None else Some v)"

definition dedup_key :: "'d chunk \<Rightarrow> ustr" where
  "dedup_key c =
     (let meta = (case metadata c of Some m \<Rightarrow> m | None \<Rightarrow> Map.empty) in
      case truthy_get meta ''file'' of
        Some v \<Rightarrow> v
      | None \<Rightarrow>
          (case truthy_get meta ''doc_id'' of
             Some v \<Rightarrow> v
           | None \<Rightarrow> take 40 (case chunk_text c of Some t \<Rightarrow> t | None \<Rightarrow> [])))"

fun diversify_loop :: "int \<Rightarrow> 'd chunk list \<Rightarrow> ustr set \<Rightarrow> 'd chunk list \<Rightarrow> 'd chunk list" where
  "diversify_loop top_k [] seen diversified = diversified"
| "diversify_loop top_k (c # cs) seen diversified =
     (let key = dedup_key c in
      if key \<in> seen then diversify_loop top_k cs seen diversified
      else if top_k \<le> int (length (diversified @ [c])) then diversified @ [c]
      else diversify_loop top_k cs (insert key seen) (diversified @ [c]))"

text \<open>\<open>xs[:k]\<close>; a negative \<open>k\<close> counts from the end.\<close>

definition py_slice_to :: "int \<Rightarrow> 'a list \<Rightarrow> 'a list" where
  "py_slice_to k xs = (if 0 \<le> k then take (nat k) xs else take (length xs - nat (- k)) xs)"

definition diversify :: "('d::linorder) chunk list \<Rightarrow> int \<Rightarrow> 'd chunk list" where
  "diversify chunks top_k =
     (let diversified = diversify_loop top_k (sort_key distance chunks) {} [] in
      if diversified \<noteq> [] then diversified else py_slice_to top_k chunks)"

definition mk_chunk :: "string \<Rightarrow> int \<Rightarrow> string \<Rightarrow> int chunk" where
  "mk_chunk t d f = \<lparr> chunk_text = Some (ustr t), distance = d, metadata = Some [''file'' \<mapsto> ustr f] \<rparr>"

definition example_chunks :: "int chunk list" where
  "example_chunks =
     [mk_chunk ''a'' 10 ''A'', mk_chunk ''b'' 20 ''A'', mk_chunk ''c'' 15 ''B'', mk_chunk ''d'' 30 ''C'']"

section \<open>Rolling feed: \<open>main\<close> of scripts/update_weather_feed.py\<close>

text \<open>
  A parsed JSON value. Numbers are integers here (a float date is outside the model). An
  object is its list of key-value pairs in insertion order, as a Python dict keeps them.
\<close>

datatype json = JNull | JBool bool | JNum int | JStr ustr | JArr "json list" | JObj "(ustr \<times> json) list"

type_synonym dict = "(ustr \<times> json) list"

text \<open>
  \<open>str(v)\<close>: a string is itself; how Python prints any other value is the parameter
  \<open>render\<close>.
\<close>

definition py_str :: "(json \<Rightarrow> ustr) \<Rightarrow> json \<Rightarrow> ustr" where
  "py_str render v = (case v of JStr s \<Rightarrow> s | _ \<Rightarrow> render v)"

definition truthy :: "json \<Rightarrow> bool" where
  "truthy v =
     (case v of JNull \<Rightarrow> False | JBool b \<Rightarrow> b | JNum n \<Rightarrow> n \<noteq> 0 | JStr s \<Rightarrow> s \<noteq> []
      | JArr xs \<Rightarrow> xs \<noteq> [] | JObj kv \<Rightarrow> kv \<noteq> [])"

text \<open>\<open>str(x.get("date", ""))\<close>\<close>

definition date_key :: "(json \<Rightarrow> ustr) \<Rightarrow> dict \<Rightarrow> ustr" where
  "date_key render x = py_str render (case map_of x (ustr ''date'') of None \<Rightarrow> JStr [] | Some v \<Rightarrow> v)"

text \<open>
  \<open>items.sort(key=f, reverse=True)\<close>: descending, and items with equal keys keep their
  order.
\<close>

definition sort_desc :: "('a \<Rightarrow> 'k::linorder) \<Rightarrow> 'a list \<Rightarrow> 'a list" where
  "sort_desc f xs = rev (sort_key f (rev xs))"

text \<open>
  \<^verbatim>\<open>
  entry = {"date": args.date, "text": args.text}
  if args.place:
      entry["place"] = args.place
  \<close>
\<close>

definition make_entry :: "ustr \<Rightarrow> ustr \<Rightarrow> ustr \<Rightarrow> dict" where
  "make_entry date tx place =
     [(ustr ''date'', JStr date), (ustr ''text'', JStr tx)]
     @ (if place \<noteq> [] then [(ustr ''place'', JStr place)] else [])"

text \<open>
  \<^verbatim>\<open>
  items = [x for x in items if str(x.get("date", "")) != args.date]
  items.append(entry)
  items.sort(key=lambda x: str(x.get("date", "")), reverse=True)
  items = items[: max(1, args.limit)]
  \<close>
\<close>

definition upsert_items :: "(json \<Rightarrow> ustr) \<Rightarrow> dict list \<Rightarrow> ustr \<Rightarrow> ustr \<Rightarrow> ustr \<Rightarrow> int \<Rightarrow> dict list" where
  "upsert_items render items date tx place limit =
     (let items = filter (\<lambda>x. date_key render x \<noteq> date) items;
          items = items @ [make_entry date tx place];
          items = sort_desc (date_key render) items
      in take (nat (max 1 limit)) items)"


subsection \<open>Reading the existing feed\<close>

text \<open>
  What a feed path holds: nothing, something that cannot be read or parsed, or a JSON value.
  \<^verbatim>\<open>
  def _load_json(path):
      try: return json.loads(path.read_text(encoding="utf-8"))
      except FileNotFoundError: return None
      except Exception: return None
  \<close>
\<close>

datatype feed_file = Absent | Unreadable | Content json

datatype py_error = AttributeError | TypeError

definition load_json :: "feed_file \<Rightarrow> json option" where
  "load_json f = (case f of Content j \<Rightarrow> Some j | _ \<Rightarrow> None)"

text \<open>
  \<^verbatim>\<open>
  feed = {"items": []}
  for p in feed_paths:
      loaded = _load_json(p)
      if loaded:
          feed = loaded
          break
  \<close>
\<close>

fun load_first :: "feed_file list \<Rightarrow> json" where
  "load_first [] = JObj [(ustr ''items'', JArr [])]"
| "load_first (f # fs) =
     (case load_json f of
        Some loaded \<Rightarrow> if truthy loaded then loaded else load_first fs
      | None \<Rightarrow> load_first fs)"

text \<open>\<open>feed.get(k)\<close>: only a dict has \<open>get\<close>.\<close>

definition feed_get :: "json \<Rightarrow> ustr \<Rightarrow> py_error + json option" where
  "feed_get feed k = (case feed of JObj kv \<Rightarrow> Inr (map_of kv k) | _ \<Rightarrow> Inl AttributeError)"

text \<open>\<open>list(v or [])\<close>: a string gives its characters, a dict its keys, a number raises.\<close>

definition list_or_empty :: "json option \<Rightarrow> py_error + json list" where
  "list_or_empty v =
     (case v of
        None \<Rightarrow> Inr []
      | Some j \<Rightarrow>
          if \<not> truthy j then Inr []
          else (case j of
                  JArr xs \<Rightarrow> Inr xs
                | JStr s \<Rightarrow> Inr (map (\<lambda>c. JStr [c]) s)
                | JObj kv \<Rightarrow> Inr (map (\<lambda>(k, _). JStr k) kv)
                | _ \<Rightarrow> Inl TypeError))"

text \<open>\<open>x.get("date", "")\<close> is called on every item: each has to be a dict.\<close>

fun as_dicts :: "json list \<Rightarrow> py_error + dict list" where
  "as_dicts [] = Inr []"
| "as_dicts (JObj kv # xs) = (case as_dicts xs of Inl e \<Rightarrow> Inl e | Inr ds \<Rightarrow> Inr (kv # ds))"
| "as_dicts (_ # xs) = Inl AttributeError"

text \<open>
  The run of \<open>main\<close> up to its writes: the feed object written to every feed path and the
  entry written to the latest path, or the exception that ends the run. \<open>now\<close> is
  \<open>_now_iso()\<close>.
\<close>

definition rolling_upsert ::
  "(json \<Rightarrow> ustr) \<Rightarrow> ustr \<Rightarrow> feed_file list \<Rightarrow> ustr \<Rightarrow> ustr \<Rightarrow> ustr \<Rightarrow> int \<Rightarrow> py_error + (json \<times> json)" where
  "rolling_upsert render now files date tx place limit =
     (let feed = load_first files in
      case feed_get feed (ustr ''items'') of
        Inl e \<Rightarrow> Inl e
      | Inr v \<Rightarrow>
          (case list_or_empty v of
             Inl e \<Rightarrow> Inl e
           | Inr xs \<Rightarrow>
               (case as_dicts xs of
                  Inl e \<Rightarrow> Inl e
                | Inr items \<Rightarrow>
                    (let items = upsert_items render items date tx place limit;
                         kv = (case feed of JObj kv \<Rightarrow> kv | _ \<Rightarrow> []);
                         kv = AList.update (ustr ''items'') (JArr (map JObj items)) kv;
                         kv = AList.update (ustr ''updated_at'') (JStr now) kv;
                         kv = (if place \<noteq> [] then AList.update (ustr ''place'') (JStr place) kv else kv)
                     in Inr (JObj kv, JObj (make_entry date tx place))))))"

section \<open>Log feed: \<open>append_feed\<close> of scripts/generate_talk.py\<close>

text \<open>
  \<^verbatim>\<open>
  if p.exists():
      try: feed_obj = read_json(p)
      except Exception: feed_obj = []
  else:
      feed_obj = []
  if isinstance(feed_obj, dict) and "items" in feed_obj:
      items = feed_obj.get("items")
      if not isinstance(items, list): items = []
      items.insert(0, entry)
      feed_obj["items"] = items
      write_json(p, feed_obj)
  elif isinstance(feed_obj, list):
      feed_obj.insert(0, entry)
      write_json(p, feed_obj)
  else:
      write_json(p, [entry])
  \<close>
  \<open>append_feed_one\<close> is what one path is given to hold.
\<close>

definition read_or_empty :: "feed_file \<Rightarrow> json" where
  "read_or_empty f = (case f of Content j \<Rightarrow> j | _ \<Rightarrow> JArr [])"

definition append_feed_one :: "feed_file \<Rightarrow> json \<Rightarrow> json" where
  "append_feed_one f entry =
     (case read_or_empty f of
        JObj kv \<Rightarrow>
          if ustr ''items'' \<in> fst ` set kv
          then (let items = (case map_of kv (ustr ''items'') of Some (JArr xs) \<Rightarrow> xs | _ \<Rightarrow> [])
                in JObj (AList.update (ustr ''items'') (JArr (entry # items)) kv))
          else JArr [entry]
      | JArr xs \<Rightarrow> JArr (entry # xs)
      | _ \<Rightarrow> JArr [entry])"

section \<open>Writing a file: \<open>_atomic_write\<close> and \<open>write_json\<close>\<close>

text \<open>
  A file system maps a path to the file's content. \<open>Path.write_text\<close> opens the file for
  writing, which creates or empties it, and then writes the data; \<open>Path.replace\<close> renames
  in one step. A run that is interrupted has done the first \<open>k\<close> steps and, when the next
  step is a write, has written the first \<open>n\<close> characters of its data.
  \<^verbatim>\<open>
  def _atomic_write(path, obj):                       (update_weather_feed.py)
      path.parent.mkdir(parents=True, exist_ok=True)
      tmp = path.with_suffix(path.suffix + ".tmp")
      tmp.write_text(json.dumps(obj, ...) + "\n", encoding="utf-8")
      tmp.replace(path)

  def write_json(path, obj):                          (generate_talk.py)
      ensure_parent_dir(path)
      path.write_text(json.dumps(obj, ...) + "\n", encoding="utf-8")
  \<close>
  \<open>append_feed\<close> and \<open>write_latest\<close> write through \<open>write_json\<close>; \<open>main\<close> of
  update_weather_feed.py writes the feed and the latest entry through \<open>_atomic_write\<close>.
\<close>

type_synonym path = string

type_synonym fs = "path \<Rightarrow> ustr option"

datatype fs_op = Mkdir_parents path | Open_truncate path | Write_data path ustr | Replace path path

fun apply_op :: "fs_op \<Rightarrow> fs \<Rightarrow> fs" where
  "apply_op (Mkdir_parents p) fs = fs"
| "apply_op (Open_truncate p) fs = fs(p \<mapsto> [])"
| "apply_op (Write_data p d) fs = fs(p \<mapsto> (case fs p of None \<Rightarrow> [] | Some c \<Rightarrow> c) @ d)"
| "apply_op (Replace src dst) fs =
     (case fs src of None \<Rightarrow> fs | Some c \<Rightarrow> (fs(dst \<mapsto> c))(src := None))"

fun run :: "fs_op list \<Rightarrow> fs \<Rightarrow> fs" where
  "run [] fs = fs"
| "run (x # ops) fs = run ops (apply_op x fs)"

definition write_text :: "path \<Rightarrow> ustr \<Rightarrow> fs_op list" where
  "write_text p d = [Open_truncate p, Write_data p d]"

definition write_json :: "path \<Rightarrow> ustr \<Rightarrow> fs_op list" where
  "write_json p d = Mkdir_parents p # write_text p d"

definition atomic_write :: "path \<Rightarrow> ustr \<Rightarrow> fs_op list" where
  "atomic_write p d = Mkdir_parents p # write_text (p @ ''.tmp'') d @ [Replace (p @ ''.tmp'') p]"

definition interrupted :: "fs_op list \<Rightarrow> nat \<Rightarrow> nat \<Rightarrow> fs \<Rightarrow> fs" where
  "interrupted ops k n fs =
     (let fs' = run (take k ops) fs in
      case drop k ops of
        Write_data p d # _ \<Rightarrow> apply_op (Write_data p (take n d)) fs'
      | _ \<Rightarrow> fs')"

section \<open>Request executor: \<open>http_json\<close> of scripts/generate_talk.py\<close>


















section \<open>Greeting rules\<close>

text \<open>
  No function of the repository computes a greeting: the rules are stated in the prompts
  and the language model applies them. The two prompts are transcribed rule by rule, as
  functions of the local month, day, hour and minute.

  The system prompt of \<open>_build_chat_prompts\<close> (backend/app/routers/rag.py):
  \<^verbatim>\<open>
  - HOLIDAY OVERRIDE (date-based, day-limited):
    * 12-24 => 'Merry Christmas Eve'
    * 12-25 => 'Merry Christmas'
    * 12-31 => "Happy New Year's Eve"
    * from 01-01  to 01-04 => 'Happy New Year'
    If today's local date matches one of these, start with that greeting and do NOT use
    the hour-based greetings.
  - Otherwise, start with exactly one greeting based on local hour:
    * 05:00-10:59 => 'Good morning'
    * 11:00-16:59 => 'Good afternoon'
    * 17:00-21:59 => 'Good evening'
    * 22:00-04:59 => 'Good night'
  \<close>
\<close>

datatype greeting =
  Merry_Christmas_Eve | Merry_Christmas | Happy_New_Years_Eve | Happy_New_Year
  | Good_morning | Good_afternoon | Good_evening | Good_night

definition minute_of_day :: "nat \<Rightarrow> nat \<Rightarrow> nat" where
  "minute_of_day hour minute = 60 * hour + minute"

definition backend_greeting :: "nat \<Rightarrow> nat \<Rightarrow> nat \<Rightarrow> nat \<Rightarrow> greeting option" where
  "backend_greeting month day hour minute =
     (let t = minute_of_day hour minute in
      if month = 12 \<and> day = 24 then Some Merry_Christmas_Eve
      else if month = 12 \<and> day = 25 then Some Merry_Christmas
      else if month = 12 \<and> day = 31 then Some Happy_New_Years_Eve
      else if month = 1 \<and> 1 \<le> day \<and> day \<le> 4 then Some Happy_New_Year
      else if minute_of_day 5 0 \<le> t \<and> t \<le> minute_of_day 10 59 then Some Good_morning
      else if minute_of_day 11 0 \<le> t \<and> t \<le> minute_of_day 16 59 then Some Good_afternoon
      else if minute_of_day 17 0 \<le> t \<and> t \<le> minute_of_day 21 59 then Some Good_evening
      else if minute_of_day 22 0 \<le> t \<or> t \<le> minute_of_day 4 59 then Some Good_night
      else None)"

text \<open>
  The question of \<open>build_question\<close> (scripts/generate_talk.py), written under the comment
  "Keep the "TIME & GREETING" rules consistent with existing backend prompt.":
  \<^verbatim>\<open>
  - Decide the greeting: morning(05-10), midday(11-15), evening(16-21), night(22-04).
  - If date is Dec 31 -> New Year's Eve style (but do not say "today" if it's already Jan 1).
  - If date is Jan 1 -> New Year's Day style.
  - Otherwise normal.
  \<close>
\<close>

datatype talk_greeting = Talk_morning | Talk_midday | Talk_evening | Talk_night

datatype talk_style = New_Years_Eve_style | New_Years_Day_style | Normal_style

definition question_greeting :: "nat \<Rightarrow> talk_greeting option" where
  "question_greeting hour =
     (if 5 \<le> hour \<and> hour \<le> 10 then Some Talk_morning
      else if 11 \<le> hour \<and> hour \<le> 15 then Some Talk_midday
      else if 16 \<le> hour \<and> hour \<le> 21 then Some Talk_evening
      else if 22 \<le> hour \<or> hour \<le> 4 then Some Talk_night
      else None)"

definition question_style :: "nat \<Rightarrow> nat \<Rightarrow> talk_style" where
  "question_style month day =
     (if month = 12 \<and> day = 31 then New_Years_Eve_style
      else if month = 1 \<and> day = 1 then New_Years_Day_style
      else Normal_style)"

section \<open>Topic selector: \<open>pick_topic\<close> of scripts/generate_talk.py\<close>

text \<open>
  \<^verbatim>\<open>
  rng = random.Random(_stable_hour_seed(now_local))
  hour = now_local.hour
  if 5 <= hour <= 10:    families = ["tips", "running", "food", "season", ...]
  elif 11 <= hour <= 15: families = ["food", "culture", "history", "events", ...]
  elif 16 <= hour <= 21: families = ["events", "culture", "food", "history", ...]
  else:                  families = ["season", "history", "culture", "nature", ...]
  topic_family = rng.choice(families)
  modes = list(TOPIC_MODES)
  if topic_family in ("tips", "recommendation"):
      modes = ["recommendation", "fact", "question", "mini_story"]
  topic_mode = rng.choice(modes)
  \<close>
  \<open>rng.choice(seq)\<close> is \<open>seq[k]\<close> for an index \<open>k < len(seq)\<close> that the generator draws.
  The generator (SHA-256 of the hour key, then Python's \<open>random.Random\<close>) is not part of the
  repository: the two indices it draws are the parameters \<open>i\<close> and \<open>j\<close>.
\<close>

definition TOPIC_FAMILIES :: "string list" where
  "TOPIC_FAMILIES =
     [''season'', ''food'', ''culture'', ''history'', ''nature'', ''tips'', ''events'', ''running'']"

definition TOPIC_MODES :: "string list" where
  "TOPIC_MODES = [''fact'', ''question'', ''mini_story'', ''recommendation'']"

definition families_for :: "nat \<Rightarrow> string list" where
  "families_for hour =
     (if 5 \<le> hour \<and> hour \<le> 10
      then [''tips'', ''running'', ''food'', ''season'', ''nature'', ''culture'', ''history'', ''events'']
      else if 11 \<le> hour \<and> hour \<le> 15
      then [''food'', ''culture'', ''history'', ''events'', ''season'', ''nature'', ''tips'', ''running'']
      else if 16 \<le> hour \<and> hour \<le> 21
      then [''events'', ''culture'', ''food'', ''history'', ''season'', ''nature'', ''tips'', ''running'']
      else [''season'', ''history'', ''culture'', ''nature'', ''tips'', ''food'', ''events'', ''running''])"

definition modes_for :: "string \<Rightarrow> string list" where
  "modes_for topic_family =
     (if topic_family \<in> {''tips'', ''recommendation''}
      then [''recommendation'', ''fact'', ''question'', ''mini_story'']
      else TOPIC_MODES)"

definition pick_topic :: "nat \<Rightarrow> nat \<Rightarrow> nat \<Rightarrow> string \<times> string" where
  "pick_topic hour i j =
     (let topic_family = families_for hour ! i;
          topic_mode = modes_for topic_family ! j
      in (topic_family, topic_mode))"

section \<open>The post-processor\<close>

lemma length_rstrip: "length (rstrip s) \<le> length s"
proof -
  have "length (dropWhile is_space (rev s)) \<le> length (rev s)"
    by (rule length_dropWhile_le)
  then show ?thesis by (simp add: rstrip_def)
qed

lemma length_rsplit_space_head: "length (rsplit_space_head s) \<le> length s"
proof -
  have "length (dropWhile (\<lambda>c. c \<noteq> SPACE) (rev s)) \<le> length (rev s)"
    by (rule length_dropWhile_le)
  then show ?thesis by (simp add: rsplit_space_head_def)
qed

lemma rsplit_space_head_decomp:
  assumes "SPACE \<in> set s"
  shows "s = rsplit_space_head s @ SPACE # rev (takeWhile (\<lambda>c. c \<noteq> SPACE) (rev s))"
proof -
  let ?P = "\<lambda>c. c \<noteq> SPACE"
  let ?d = "dropWhile ?P (rev s)"
  from assms have ne: "?d \<noteq> []" by (simp add: dropWhile_eq_Nil_conv)
  then have "\<not> ?P (hd ?d)" by (rule hd_dropWhile)
  with ne have d: "?d = SPACE # tl ?d" by (cases ?d) auto
  have "rev s = takeWhile ?P (rev s) @ ?d" by simp
  then have "rev s = takeWhile ?P (rev s) @ SPACE # tl ?d" using d by simp
  then have "rev (rev s) = rev (takeWhile ?P (rev s) @ SPACE # tl ?d)" by (rule arg_cong)
  then show ?thesis by (simp add: rsplit_space_head_def)
qed

lemma last_word_no_space: "SPACE \<notin> set (rev (takeWhile (\<lambda>c. c \<noteq> SPACE) (rev s)))"
proof
  assume "SPACE \<in> set (rev (takeWhile (\<lambda>c. c \<noteq> SPACE) (rev s)))"
  then have "SPACE \<in> set (takeWhile (\<lambda>c. c \<noteq> SPACE) (rev s))" by simp
  then show False by (auto dest: set_takeWhileD)
qed

lemma enforce_identity:
  "max_chars \<le> 0 \<or> int (length text) \<le> max_chars \<Longrightarrow> enforce_max_chars text max_chars = text"
  by (simp add: enforce_max_chars_def)

lemma enforce_cut:
  assumes "0 < max_chars" and "max_chars < int (length text)"
  shows "enforce_max_chars text max_chars =
           rstrip (if SPACE \<in> set (take (nat (max_chars - 1)) text)
                   then rsplit_space_head (take (nat (max_chars - 1)) text)
                   else take (nat (max_chars - 1)) text) @ [ELLIPSIS]"
  using assms by (simp add: enforce_max_chars_def Let_def)

lemma length_enforce_cut:
  assumes "0 < max_chars" and "max_chars < int (length text)"
  shows "int (length (enforce_max_chars text max_chars)) \<le> max_chars"
proof -
  let ?cut = "take (nat (max_chars - 1)) text"
  let ?c = "if SPACE \<in> set ?cut then rsplit_space_head ?cut else ?cut"
  have "length ?c \<le> length ?cut"
    using length_rsplit_space_head [of ?cut] by simp
  moreover have "length ?cut \<le> nat (max_chars - 1)" by simp
  moreover have "length (rstrip ?c) \<le> length ?c" by (rule length_rstrip)
  ultimately have "length (rstrip ?c) \<le> nat (max_chars - 1)" by linarith
  then have "int (length (rstrip ?c @ [ELLIPSIS])) \<le> max_chars" using assms by simp
  then show ?thesis using assms by (simp add: enforce_cut)
qed

lemma enforce_example:
  "enforce_max_chars (ustr ''The quick brown fox jumps'') 10 = ustr ''The'' @ [ELLIPSIS]"
  by (simp add: enforce_max_chars_def ustr_def SPACE_def ELLIPSIS_def rstrip_def
      rsplit_space_head_def is_space_def)

text \<open>
  C4 as stated: a text longer than \<open>maxChars > 0\<close> is cut to its \<open>maxChars - 1\<close> prefix, backed
  off to the last space of that prefix when it has one, and gets one ellipsis; in particular
  \<open>finalize("The quick brown fox jumps", 10) = "The quick..."\<close>. The example fails: the
  nine-character prefix \<open>"The quick"\<close> holds a space, so the code backs off to \<open>"The"\<close>.
\<close>

theorem C4_example_counterexample:
  "enforce_max_chars (ustr ''The quick brown fox jumps'') 10 \<noteq> ustr ''The quick'' @ [ELLIPSIS]"
  by (simp add: enforce_max_chars_def ustr_def SPACE_def ELLIPSIS_def rstrip_def
      rsplit_space_head_def is_space_def)

text \<open>
  C4, amended: for a text longer than \<open>maxChars > 0\<close>, with \<open>cut\<close> its \<open>maxChars - 1\<close> prefix:
  if \<open>cut\<close> has no space the result is \<open>cut\<close> without trailing whitespace, plus one ellipsis;
  if it has one, \<open>cut\<close> is \<open>kept\<close>, a space and a last word without spaces, and the result is
  \<open>kept\<close> without trailing whitespace, plus one ellipsis (the last word is dropped even when
  the cut fell on a word boundary). For \<open>maxChars \<le> 0\<close> the text is returned as it is, and
  \<open>finalize("The quick brown fox jumps", 10) = "The..."\<close>.
\<close>

theorem C4_enforce_max_chars_truncates:
  "(0 < max_chars \<and> max_chars < int (length text) \<longrightarrow>
      (SPACE \<notin> set (take (nat (max_chars - 1)) text) \<longrightarrow>
         enforce_max_chars text max_chars = rstrip (take (nat (max_chars - 1)) text) @ [ELLIPSIS]) \<and>
      (SPACE \<in> set (take (nat (max_chars - 1)) text) \<longrightarrow>
         (\<exists>kept word. take (nat (max_chars - 1)) text = kept @ SPACE # word \<and> SPACE \<notin> set word \<and>
            enforce_max_chars text max_chars = rstrip kept @ [ELLIPSIS])))
   \<and> (max_chars \<le> 0 \<longrightarrow> enforce_max_chars text max_chars = text)
   \<and> enforce_max_chars (ustr ''The quick brown fox jumps'') 10 = ustr ''The'' @ [ELLIPSIS]"
proof (intro conjI impI)
  assume "0 < max_chars \<and> max_chars < int (length text)"
    and "SPACE \<notin> set (take (nat (max_chars - 1)) text)"
  then show "enforce_max_chars text max_chars = rstrip (take (nat (max_chars - 1)) text) @ [ELLIPSIS]"
    by (simp add: enforce_cut)
next
  let ?cut = "take (nat (max_chars - 1)) text"
  assume len: "0 < max_chars \<and> max_chars < int (length text)" and sp: "SPACE \<in> set ?cut"
  have "?cut = rsplit_space_head ?cut @ SPACE # rev (takeWhile (\<lambda>c. c \<noteq> SPACE) (rev ?cut))"
    using sp by (rule rsplit_space_head_decomp)
  moreover have "SPACE \<notin> set (rev (takeWhile (\<lambda>c. c \<noteq> SPACE) (rev ?cut)))"
    by (rule last_word_no_space)
  moreover have "enforce_max_chars text max_chars = rstrip (rsplit_space_head ?cut) @ [ELLIPSIS]"
    using len sp by (simp add: enforce_cut)
  ultimately show "\<exists>kept word. ?cut = kept @ SPACE # word \<and> SPACE \<notin> set word \<and>
      enforce_max_chars text max_chars = rstrip kept @ [ELLIPSIS]"
    by blast
next
  assume "max_chars \<le> 0"
  then show "enforce_max_chars text max_chars = text" by (simp add: enforce_identity)
next
  show "enforce_max_chars (ustr ''The quick brown fox jumps'') 10 = ustr ''The'' @ [ELLIPSIS]"
    by (rule enforce_example)
qed

theorem C4_enforce_max_chars_truncates_witness:
  "enforce_max_chars (ustr ''ab cd ef'') 6 = ustr ''ab'' @ [ELLIPSIS]
   \<and> enforce_max_chars (ustr ''abcdefgh'') 6 = ustr ''abcde'' @ [ELLIPSIS]
   \<and> enforce_max_chars (ustr ''abcdefgh'') 0 = ustr ''abcdefgh''"
proof -
  have a: "(0::int) < 6 \<and> 6 < int (length (ustr ''ab cd ef''))" by (simp add: ustr_def)
  have b: "SPACE \<in> set (take (nat (6 - 1)) (ustr ''ab cd ef''))" by (simp add: ustr_def SPACE_def)
  from C4_enforce_max_chars_truncates [of 6 "ustr ''ab cd ef''"] a b
  obtain kept word where kw: "take (nat (6 - 1)) (ustr ''ab cd ef'') = kept @ SPACE # word"
      "SPACE \<notin> set word" "enforce_max_chars (ustr ''ab cd ef'') 6 = rstrip kept @ [ELLIPSIS]"
    by blast
  have c: "(0::int) < 6 \<and> 6 < int (length (ustr ''abcdefgh''))" by (simp add: ustr_def)
  have d: "SPACE \<notin> set (take (nat (6 - 1)) (ustr ''abcdefgh''))" by (simp add: ustr_def SPACE_def)
  have e: "enforce_max_chars (ustr ''abcdefgh'') 6 = rstrip (take (nat (6 - 1)) (ustr ''abcdefgh'')) @ [ELLIPSIS]"
    using C4_enforce_max_chars_truncates [of 6 "ustr ''abcdefgh''"] c d by blast
  have f: "enforce_max_chars (ustr ''abcdefgh'') 0 = ustr ''abcdefgh''"
    using C4_enforce_max_chars_truncates [of 0 "ustr ''abcdefgh''"] by simp
  have g: "enforce_max_chars (ustr ''ab cd ef'') 6 = ustr ''ab'' @ [ELLIPSIS]"
    by (simp add: enforce_max_chars_def ustr_def SPACE_def ELLIPSIS_def rstrip_def
        rsplit_space_head_def is_space_def)
  from e have "enforce_max_chars (ustr ''abcdefgh'') 6 = ustr ''abcde'' @ [ELLIPSIS]"
    by (simp add: ustr_def rstrip_def is_space_def)
  with f g show ?thesis by simp
qed

text \<open>
  C5: the post-processor is idempotent: for every string \<open>x\<close> and every \<open>N > 0\<close>,
  \<open>finalize(finalize(x, N), N) = finalize(x, N)\<close>.
\<close>

theorem C5_enforce_max_chars_idempotent:
  "0 < N \<Longrightarrow> enforce_max_chars (enforce_max_chars x N) N = enforce_max_chars x N"
proof (cases "int (length x) \<le> N")
  case True
  then show ?thesis by (simp add: enforce_identity)
next
  case False
  assume "0 < N"
  with False have "int (length (enforce_max_chars x N)) \<le> N"
    by (simp add: length_enforce_cut)
  then show ?thesis by (simp add: enforce_identity)
qed

theorem C5_enforce_max_chars_idempotent_witness:
  "(0::int) < 10 \<and>
   enforce_max_chars (enforce_max_chars (ustr ''The quick brown fox jumps'') 10) 10 =
     ustr ''The'' @ [ELLIPSIS]"
proof -
  have h: "(0::int) < 10" by simp
  from C5_enforce_max_chars_idempotent [OF h, of "ustr ''The quick brown fox jumps''"]
  show ?thesis by (simp add: enforce_example)
qed

text \<open>
  C10: for every text and every \<open>maxChars \<ge> 1\<close>, the result is no longer than
  \<open>max(len(text), maxChars)\<close>; a text longer than \<open>maxChars\<close> gives a result of at most
  \<open>maxChars\<close> characters, and a text of at most \<open>maxChars\<close> characters is returned unchanged.
\<close>

theorem C10_enforce_max_chars_length:
  assumes "1 \<le> max_chars"
  shows "int (length (enforce_max_chars text max_chars)) \<le> max (int (length text)) max_chars
       \<and> (max_chars < int (length text) \<longrightarrow> int (length (enforce_max_chars text max_chars)) \<le> max_chars)
       \<and> (int (length text) \<le> max_chars \<longrightarrow> enforce_max_chars text max_chars = text)"
proof (cases "int (length text) \<le> max_chars")
  case True
  then show ?thesis by (simp add: enforce_identity)
next
  case False
  with assms have "int (length (enforce_max_chars text max_chars)) \<le> max_chars"
    by (simp add: length_enforce_cut)
  with False show ?thesis by simp
qed

theorem C10_enforce_max_chars_length_witness:
  "(1::int) \<le> 6
   \<and> int (length (enforce_max_chars (ustr ''ab cd ef'') 6)) \<le> 6
   \<and> enforce_max_chars (ustr ''ab cd'') 6 = ustr ''ab cd''"
proof -
  have h: "(1::int) \<le> 6" by simp
  have a: "(6::int) < int (length (ustr ''ab cd ef''))" by (simp add: ustr_def)
  have b: "int (length (ustr ''ab cd'')) \<le> 6" by (simp add: ustr_def)
  from C10_enforce_max_chars_length [OF h, of "ustr ''ab cd ef''"] a
  have "int (length (enforce_max_chars (ustr ''ab cd ef'') 6)) \<le> 6" by blast
  moreover from C10_enforce_max_chars_length [OF h, of "ustr ''ab cd''"] b
  have "enforce_max_chars (ustr ''ab cd'') 6 = ustr ''ab cd''" by blast
  ultimately show ?thesis by simp
qed

section \<open>The retrieval diversifier\<close>

lemma diversify_loop_sorted:
  "sorted (map distance (acc @ cs)) \<Longrightarrow> sorted (map distance (diversify_loop k cs seen acc))"
proof (induction cs arbitrary: seen acc)
  case Nil
  then show ?case by simp
next
  case (Cons c cs)
  from Cons.prems have skip: "sorted (map distance (acc @ cs))"
    by (auto simp: sorted_append)
  from Cons.prems have keep: "sorted (map distance ((acc @ [c]) @ cs))" by simp
  from Cons.prems have stop: "sorted (map distance (acc @ [c]))" by (auto simp: sorted_append)
  show ?case using Cons.IH [OF skip] Cons.IH [OF keep] stop by (simp add: Let_def)
qed

lemma diversify_loop_distinct:
  "distinct (map dedup_key acc) \<Longrightarrow> dedup_key ` set acc \<subseteq> seen \<Longrightarrow>
   distinct (map dedup_key (diversify_loop k cs seen acc))"
proof (induction cs arbitrary: seen acc)
  case Nil
  then show ?case by simp
next
  case (Cons c cs)
  show ?case
  proof (cases "dedup_key c \<in> seen")
    case True
    then show ?thesis using Cons.IH [OF Cons.prems] by simp
  next
    case False
    with Cons.prems have d: "distinct (map dedup_key (acc @ [c]))" by auto
    from Cons.prems have s: "dedup_key ` set (acc @ [c]) \<subseteq> insert (dedup_key c) seen" by auto
    show ?thesis using False d Cons.IH [OF d s] by (simp add: Let_def)
  qed
qed

lemma diversify_loop_length:
  "finite seen \<Longrightarrow> card seen = length acc \<Longrightarrow> int (length acc) < k \<Longrightarrow>
   length (diversify_loop k cs seen acc) = min (nat k) (card (seen \<union> dedup_key ` set cs))"
proof (induction cs arbitrary: seen acc)
  case Nil
  then show ?case by simp
next
  case (Cons c cs)
  show ?case
  proof (cases "dedup_key c \<in> seen")
    case True
    then have "seen \<union> dedup_key ` set (c # cs) = seen \<union> dedup_key ` set cs" by auto
    then show ?thesis using True Cons.IH [OF Cons.prems] by simp
  next
    case False
    have fin: "finite (insert (dedup_key c) seen)" using Cons.prems by simp
    have cd: "card (insert (dedup_key c) seen) = length (acc @ [c])"
      using Cons.prems False by simp
    have eq: "seen \<union> dedup_key ` set (c # cs) = insert (dedup_key c) seen \<union> dedup_key ` set cs"
      by auto
    show ?thesis
    proof (cases "k \<le> int (length (acc @ [c]))")
      case True
      with Cons.prems have lk: "length (acc @ [c]) = nat k" by simp
      have "card (insert (dedup_key c) seen) \<le> card (seen \<union> dedup_key ` set (c # cs))"
        using Cons.prems by (intro card_mono) auto
      with cd lk have "nat k \<le> card (seen \<union> dedup_key ` set (c # cs))" by simp
      then show ?thesis using False True lk by (simp add: Let_def)
    next
      case stop: False
      then have "int (length (acc @ [c])) < k" by simp
      from Cons.IH [OF fin cd this] show ?thesis using False stop eq by (simp add: Let_def)
    qed
  qed
qed

lemma diversify_example: "map distance (diversify example_chunks 2) = [10, 15]"
  by (simp add: diversify_def example_chunks_def mk_chunk_def dedup_key_def truthy_get_def
      ustr_def Let_def)

text \<open>
  C1: for every candidate list and every \<open>want \<ge> 1\<close>, the diversified list has
  \<open>min(want, number of distinct dedup keys of the input)\<close> elements, is ordered by
  non-decreasing distance and holds no two elements with the same dedup key. The dedup key
  is the metadata \<open>file\<close> value if present, else the metadata \<open>doc_id\<close> value if present,
  else the first 40 characters of the text; "present" is what Python's \<open>or\<close> tests: the key
  is there and its value is not empty.
\<close>

theorem C1_diversify_length_sorted_distinct:
  assumes "1 \<le> want"
  shows "length (diversify chunks want) = min (nat want) (card (dedup_key ` set chunks))
       \<and> sorted (map distance (diversify chunks want))
       \<and> distinct (map dedup_key (diversify chunks want))"
proof -
  let ?d = "diversify_loop want (sort_key distance chunks) {} []"
  have len: "length ?d = min (nat want) (card (dedup_key ` set chunks))"
    using assms diversify_loop_length [of "{}" "[]" want "sort_key distance chunks"] by simp
  have "sorted (map distance ([] @ sort_key distance chunks))" by simp
  then have srt: "sorted (map distance ?d)" by (rule diversify_loop_sorted)
  have dst: "distinct (map dedup_key ?d)" by (rule diversify_loop_distinct) simp_all
  show ?thesis
  proof (cases "?d = []")
    case False
    then have "diversify chunks want = ?d" by (simp add: diversify_def)
    with len srt dst show ?thesis by simp
  next
    case True
    with len have "min (nat want) (card (dedup_key ` set chunks)) = 0" by simp
    with assms have "card (dedup_key ` set chunks) = 0" by (simp add: min_def split: if_splits)
    then have "dedup_key ` set chunks = {}" by simp
    then have "chunks = []" by simp
    then show ?thesis by (simp add: diversify_def py_slice_to_def)
  qed
qed

theorem C1_diversify_length_sorted_distinct_witness:
  "(1::int) \<le> 2
   \<and> length (diversify example_chunks 2) = min (nat 2) (card (dedup_key ` set example_chunks))
   \<and> sorted (map distance (diversify example_chunks 2))
   \<and> distinct (map dedup_key (diversify example_chunks 2))
   \<and> map distance (diversify example_chunks 2) = [10, 15]"
proof -
  have h: "(1::int) \<le> 2" by simp
  from C1_diversify_length_sorted_distinct [OF h, of example_chunks] h diversify_example
  show ?thesis by blast
qed

section \<open>The rolling feed\<close>



















section \<open>Reading an existing feed\<close>

lemma rolling_upsert_starts_empty:
  "list_all (\<lambda>f. f = Absent \<or> f = Unreadable) files \<Longrightarrow>
   rolling_upsert render now files date tx place limit =
     Inr (JObj ((if place \<noteq> [] then AList.update (ustr ''place'') (JStr place) else id)
                  [(ustr ''items'', JArr [JObj (make_entry date tx place)]),
                   (ustr ''updated_at'', JStr now)]),
          JObj (make_entry date tx place))"
proof -
  assume a: "list_all (\<lambda>f. f = Absent \<or> f = Unreadable) files"
  then have "load_first files = JObj [(ustr ''items'', JArr [])]"
    by (induction files) (auto simp: load_json_def)
  then show ?thesis
    by (simp add: rolling_upsert_def feed_get_def list_or_empty_def truthy_def
        upsert_items_def sort_desc_def ustr_def)
qed

lemma rolling_upsert_bare_sequence:
  "xs \<noteq> [] \<Longrightarrow>
   rolling_upsert render now (Content (JArr xs) # files) date tx place limit = Inl AttributeError"
  by (simp add: rolling_upsert_def load_json_def truthy_def feed_get_def)

lemma append_feed_one_shapes:
  "append_feed_one Absent entry = JArr [entry]"
  "append_feed_one Unreadable entry = JArr [entry]"
  "append_feed_one (Content (JArr xs)) entry = JArr (entry # xs)"
  "append_feed_one (Content JNull) entry = JArr [entry]"
  "append_feed_one (Content (JBool b)) entry = JArr [entry]"
  "append_feed_one (Content (JNum n)) entry = JArr [entry]"
  "append_feed_one (Content (JStr s)) entry = JArr [entry]"
  by (simp_all add: append_feed_one_def read_or_empty_def)

text \<open>
  C6: whatever a target file holds (nothing, something unreadable, a bare JSON sequence, any
  other shape), a feed write never fails on reading it: it starts from an empty feed and
  writes the new entry. The log append does so. The rolling upsert does not: on a file
  holding a bare, non-empty JSON sequence, \<open>feed.get("items")\<close> raises \<open>AttributeError\<close>
  and nothing is written, where the log append puts the entry in front of the sequence.
\<close>

theorem C6_rolling_upsert_fails_on_bare_sequence:
  "rolling_upsert render now
     [Content (JArr [JObj (make_entry (ustr ''2024-01-01'') (ustr ''x'') [])])]
     (ustr ''2024-01-02'') (ustr ''y'') [] 365
   = Inl AttributeError
   \<and> append_feed_one
       (Content (JArr [JObj (make_entry (ustr ''2024-01-01'') (ustr ''x'') [])]))
       (JObj (make_entry (ustr ''2024-01-02'') (ustr ''y'') []))
     = JArr [JObj (make_entry (ustr ''2024-01-02'') (ustr ''y'') []),
             JObj (make_entry (ustr ''2024-01-01'') (ustr ''x'') [])]"
  by (simp add: rolling_upsert_bare_sequence append_feed_one_shapes)

section \<open>Writing a file\<close>

lemma atomic_write_interrupted:
  "interrupted (atomic_write p d) k n fs p = fs p \<or> interrupted (atomic_write p d) k n fs p = Some d"
proof -
  consider "k = 0" | "k = 1" | "k = 2" | "k = 3" | "4 \<le> k" by linarith
  then show ?thesis
  proof cases
    case 1
    then show ?thesis by (simp add: interrupted_def atomic_write_def write_text_def)
  next
    case 2
    then show ?thesis by (simp add: interrupted_def atomic_write_def write_text_def)
  next
    case 3
    then show ?thesis
      by (simp add: interrupted_def atomic_write_def write_text_def numeral_2_eq_2)
  next
    case 4
    then show ?thesis
      by (simp add: interrupted_def atomic_write_def write_text_def numeral_3_eq_3)
  next
    case 5
    then show ?thesis by (simp add: interrupted_def atomic_write_def write_text_def)
  qed
qed

lemma atomic_write_completed: "run (atomic_write p d) fs p = Some d"
  by (simp add: atomic_write_def write_text_def)

lemma write_json_completed: "run (write_json p d) fs p = Some d"
  by (simp add: write_json_def write_text_def)

lemma write_json_interrupted: "interrupted (write_json p d) 2 n fs p = Some (take n d)"
  by (simp add: interrupted_def write_json_def write_text_def numeral_2_eq_2)

text \<open>
  C7: every write of every feed-writing operation (rolling upsert, log append, latest
  pointer) goes to a temporary sibling file that is then renamed over the destination, so
  that a failure leaves the destination as it was and never a partial file. The rolling
  upsert writes so. The log append and its latest pointer write the destination in place:
  interrupted once the file is open, the write of \<open>NEW\<close> over \<open>OLD\<close> leaves the
  destination empty, or with the one character \<open>N\<close>; the temp-and-rename write of the
  rolling upsert, interrupted at the same points, leaves \<open>OLD\<close>.
\<close>

theorem C7_write_json_leaves_partial_file:
  "interrupted (write_json ''feed.json'' (ustr ''NEW'')) 2 0 [''feed.json'' \<mapsto> ustr ''OLD''] ''feed.json''
     = Some []
   \<and> interrupted (write_json ''feed.json'' (ustr ''NEW'')) 2 1 [''feed.json'' \<mapsto> ustr ''OLD''] ''feed.json''
     = Some (ustr ''N'')
   \<and> interrupted (atomic_write ''feed.json'' (ustr ''NEW'')) 2 0 [''feed.json'' \<mapsto> ustr ''OLD''] ''feed.json''
     = Some (ustr ''OLD'')
   \<and> interrupted (atomic_write ''feed.json'' (ustr ''NEW'')) 2 1 [''feed.json'' \<mapsto> ustr ''OLD''] ''feed.json''
     = Some (ustr ''OLD'')"
  by (simp add: interrupted_def write_json_def atomic_write_def write_text_def numeral_2_eq_2
      ustr_def)

section \<open>The request executor\<close>















section \<open>The greeting rules\<close>

lemma backend_greeting_holidays:
  "backend_greeting 12 24 hour minute = Some Merry_Christmas_Eve"
  "backend_greeting 12 25 hour minute = Some Merry_Christmas"
  "backend_greeting 12 31 hour minute = Some Happy_New_Years_Eve"
  "1 \<le> day \<Longrightarrow> day \<le> 4 \<Longrightarrow> backend_greeting 1 day hour minute = Some Happy_New_Year"
  by (simp_all add: backend_greeting_def Let_def)

lemma backend_greeting_hours:
  assumes "\<not> (month = 12 \<and> day \<in> {24, 25, 31})" and "\<not> (month = 1 \<and> 1 \<le> day \<and> day \<le> 4)"
    and "hour < 24" and "minute < 60"
  shows "backend_greeting month day hour minute =
           Some (if 5 \<le> hour \<and> hour < 11 then Good_morning
                 else if 11 \<le> hour \<and> hour < 17 then Good_afternoon
                 else if 17 \<le> hour \<and> hour < 22 then Good_evening
                 else Good_night)"
  using assms by (auto simp: backend_greeting_def minute_of_day_def Let_def)

text \<open>
  C8: the greeting is decided by one table, calendar override first: Dec 24, Dec 25, Dec 31
  and Jan 1 to Jan 4 give the holiday greeting whatever the hour, and otherwise the hour
  bands [05:00,11:00) morning, [11:00,17:00) afternoon, [17:00,22:00) evening and the rest
  night decide. The backend prompt states this table. The question prompt of the generator,
  which is to keep the same rules, states another: at 16:30 on June 10 it says evening where
  the backend says afternoon, and at 08:00 on Dec 25 it has no override where the backend
  says Merry Christmas.
\<close>

theorem C8_question_prompt_differs_from_backend:
  "backend_greeting 6 10 16 30 = Some Good_afternoon
   \<and> question_greeting 16 = Some Talk_evening
   \<and> backend_greeting 12 25 8 0 = Some Merry_Christmas
   \<and> question_style 12 25 = Normal_style
   \<and> question_greeting 8 = Some Talk_morning
   \<and> backend_greeting 6 10 6 30 = Some Good_morning
   \<and> backend_greeting 6 10 23 0 = Some Good_night"
  by (simp add: backend_greeting_def question_greeting_def question_style_def minute_of_day_def)

section \<open>The topic selector\<close>

lemma families_for_members:
  "length (families_for hour) = 8 \<and> set (families_for hour) = set TOPIC_FAMILIES"
  by (auto simp: families_for_def TOPIC_FAMILIES_def)

lemma modes_for_members:
  "length (modes_for f) = 4 \<and> distinct (modes_for f) \<and> set (modes_for f) = set TOPIC_MODES"
  by (auto simp: modes_for_def TOPIC_MODES_def)

text \<open>
  C9 as stated: the mode is drawn from the four modes, and from a three-member subset when
  the family is a practical-advice one, so that for such a family one of the four modes is
  never returned. For the family \<open>tips\<close> (the first family of the morning list) each of the
  four modes is returned, by the draws 0, 1, 2 and 3.
\<close>

theorem C9_tips_returns_every_mode_counterexample:
  "pick_topic 5 0 0 = (''tips'', ''recommendation'')
   \<and> pick_topic 5 0 1 = (''tips'', ''fact'')
   \<and> pick_topic 5 0 2 = (''tips'', ''question'')
   \<and> pick_topic 5 0 3 = (''tips'', ''mini_story'')"
  by (simp add: pick_topic_def families_for_def modes_for_def)

text \<open>
  C9, amended: for every hour and every pair of draws, the family is one of the eight
  families and the mode one of the four modes; for every family, also a practical-advice
  one, the mode is drawn from a list of four distinct modes that holds all of
  \<open>TOPIC_MODES\<close>: for \<open>tips\<close> the list is reordered, not narrowed.
\<close>

theorem C9_pick_topic_draws_from_four_modes:
  assumes "i < 8" and "j < 4"
  shows "fst (pick_topic hour i j) \<in> set TOPIC_FAMILIES
       \<and> snd (pick_topic hour i j) \<in> set TOPIC_MODES
       \<and> length (modes_for family) = 4
       \<and> distinct (modes_for family)
       \<and> set (modes_for family) = set TOPIC_MODES
       \<and> modes_for ''tips'' = [''recommendation'', ''fact'', ''question'', ''mini_story'']"
proof -
  have "families_for hour ! i \<in> set (families_for hour)"
    using assms(1) families_for_members [of hour] by (intro nth_mem) simp
  then have fam: "families_for hour ! i \<in> set TOPIC_FAMILIES"
    using families_for_members [of hour] by simp
  have "modes_for (families_for hour ! i) ! j \<in> set (modes_for (families_for hour ! i))"
    using assms(2) modes_for_members [of "families_for hour ! i"] by (intro nth_mem) simp
  then have mode: "modes_for (families_for hour ! i) ! j \<in> set TOPIC_MODES"
    using modes_for_members [of "families_for hour ! i"] by simp
  have tips: "modes_for ''tips'' = [''recommendation'', ''fact'', ''question'', ''mini_story'']"
    by (simp add: modes_for_def)
  from fam mode tips modes_for_members [of family] show ?thesis
    by (simp add: pick_topic_def Let_def)
qed

theorem C9_pick_topic_draws_from_four_modes_witness:
  "(0::nat) < 8 \<and> (3::nat) < 4
   \<and> fst (pick_topic 5 0 3) \<in> set TOPIC_FAMILIES
   \<and> snd (pick_topic 5 0 3) \<in> set TOPIC_MODES
   \<and> set (modes_for ''tips'') = set TOPIC_MODES"
proof -
  have h1: "(0::nat) < 8" and h2: "(3::nat) < 4" by simp_all
  from C9_pick_topic_draws_from_four_modes [OF h1 h2, of 5 "''tips''"] h1 h2
  show ?thesis by blast
qed

end
